theory Spec2Isabelle
  imports Main "HOL-Library.Sublist" "HOL-Library.Char_ord" "HOL-Library.List_Lexorder"
begin

section \<open>Truth table generator: the expression pipeline of TrutTableCode.py\<close>

text \<open>
  The source is one Python class, \<^verbatim>\<open>LogicExpressionParser\<close>, with four methods that form
  a pipeline: \<^verbatim>\<open>tokenize_expression\<close>, \<^verbatim>\<open>convert_to_postfix\<close>,
  \<^verbatim>\<open>evaluate_postfix_expression\<close> and \<^verbatim>\<open>create_truth_table\<close>. Tokens are Python
  strings and stay strings here. A Python list used as a stack (\<^verbatim>\<open>append\<close>/\<^verbatim>\<open>pop\<close>,
  \<^verbatim>\<open>xs[-1]\<close>) is a HOL list whose head is the top of the stack; a list that is only
  appended to keeps the source's order. Every exception the source can raise is a value
  of type \<open>error\<close>, and a function that can raise returns \<open>error + 'a\<close>.
\<close>

subsection \<open>Exceptions\<close>

datatype error =
    ValueError string
  | IndexError
  | KeyError string
  | TypeError

subsection \<open>The tables built by \<^verbatim>\<open>__init__\<close>\<close>

datatype lambda = Unary "bool \<Rightarrow> bool" | Binary "bool \<Rightarrow> bool \<Rightarrow> bool"

datatype LogicOperator = LogicOperator (name: string) (func: lambda)

definition operators :: "string \<rightharpoonup> LogicOperator" where
  "operators = map_of
     [(''NOT'', LogicOperator ''NOT'' (Unary (\<lambda>a. \<not> a))),
      (''AND'', LogicOperator ''AND'' (Binary (\<lambda>a b. a \<and> b))),
      (''OR'', LogicOperator ''OR'' (Binary (\<lambda>a b. a \<or> b))),
      (''IMPLIES'', LogicOperator ''IMPLIES'' (Binary (\<lambda>a b. (\<not> a) \<or> b))),
      (''IFF'', LogicOperator ''IFF'' (Binary (\<lambda>a b. a = b)))]"

definition symbol_map :: "string \<rightharpoonup> string" where
  "symbol_map = map_of
     [(''~'', ''NOT''), (''^'', ''AND''), (''or'', ''OR''),
      (''->'', ''IMPLIES''), (''<->'', ''IFF'')]"

definition variables_set :: "string set" where
  "variables_set = {''P'', ''Q'', ''R''}"

definition precedence_levels :: "string \<rightharpoonup> int" where
  "precedence_levels = map_of
     [(''NOT'', 3), (''AND'', 2), (''OR'', 2), (''IMPLIES'', 1), (''IFF'', 1)]"

definition associativity_map :: "string \<rightharpoonup> string" where
  "associativity_map = map_of
     [(''NOT'', ''RIGHT''), (''AND'', ''LEFT''), (''OR'', ''LEFT''),
      (''IMPLIES'', ''LEFT''), (''IFF'', ''LEFT'')]"

subsection \<open>\<^verbatim>\<open>tokenize_expression\<close>\<close>

text \<open>
  The regular expression is the alternation, in this order, of the named groups
  \<^verbatim>\<open>LPAREN \(\<close>, \<^verbatim>\<open>RPAREN \)\<close>,
  \<^verbatim>\<open>OPERATOR <->|->|~|\^|or|AND|OR|NOT|IMPLIES|IFF\<close>, \<^verbatim>\<open>VARIABLE [PQRpqr]\<close>,
  \<^verbatim>\<open>CONSTANT TRUE|FALSE\<close>, \<^verbatim>\<open>WHITESPACE \s+\<close> and \<^verbatim>\<open>UNKNOWN .\<close>, compiled without
  any flag: the match is case-sensitive. At a position the first alternative that matches
  wins. A character is a code point below 256; \<^verbatim>\<open>\s\<close> on a Python \<^verbatim>\<open>str\<close> matches the
  characters for which \<^verbatim>\<open>str.isspace\<close> holds.
\<close>

datatype kind = LPAREN | RPAREN | OPERATOR | VARIABLE | CONSTANT | WHITESPACE | UNKNOWN

definition is_space :: "char \<Rightarrow> bool" where
  "is_space c \<longleftrightarrow> c \<in> set [CHR 0x09, CHR 0x0A, CHR 0x0B, CHR 0x0C, CHR 0x0D,
                              CHR 0x1C, CHR 0x1D, CHR 0x1E, CHR 0x1F, CHR 0x20,
                              CHR 0x85, CHR 0xA0]"

fun first_prefix :: "string list \<Rightarrow> string \<Rightarrow> string option" where
  "first_prefix [] s = None"
| "first_prefix (p # ps) s = (if prefix p s then Some p else first_prefix ps s)"

text \<open>The match of the whole pattern at the start of a non-empty string: group and text.\<close>

definition match_at :: "char \<Rightarrow> string \<Rightarrow> kind \<times> string" where
  "match_at c cs =
     (if c = CHR ''('' then (LPAREN, [c])
      else if c = CHR '')'' then (RPAREN, [c])
      else
        (case first_prefix [''<->'', ''->'', ''~'', ''^'', ''or'', ''AND'', ''OR'', ''NOT'',
                            ''IMPLIES'', ''IFF''] (c # cs) of
           Some v \<Rightarrow> (OPERATOR, v)
         | None \<Rightarrow>
             (if c \<in> set ''PQRpqr'' then (VARIABLE, [c])
              else
                (case first_prefix [''TRUE'', ''FALSE''] (c # cs) of
                   Some v \<Rightarrow> (CONSTANT, v)
                 | None \<Rightarrow>
                     (if is_space c then (WHITESPACE, takeWhile is_space (c # cs))
                      else (UNKNOWN, [c]))))))"

lemma first_prefix_Some: "first_prefix ps s = Some v \<Longrightarrow> v \<in> set ps \<and> prefix v s"
  by (induction ps) (auto split: if_splits)

lemma match_at_nonempty: "snd (match_at c cs) \<noteq> []"
  by (auto simp: match_at_def split: option.splits dest!: first_prefix_Some)

text \<open>
  \<^verbatim>\<open>re.finditer\<close>: the successive non-overlapping matches, left to right. Every character
  is matched by some alternative (a newline, which \<^verbatim>\<open>.\<close> refuses, is whitespace), so no
  character is skipped between two matches.
\<close>

function finditer :: "string \<Rightarrow> (kind \<times> string) list" where
  "finditer [] = []"
| "finditer (c # cs) = match_at c cs # finditer (drop (length (snd (match_at c cs))) (c # cs))"
  by pat_completeness auto
termination
proof (relation "measure length")
  show "wf (measure length)" by simp
next
  fix c :: char and cs :: string
  have "snd (match_at c cs) \<noteq> []" by (rule match_at_nonempty)
  then have "0 < length (snd (match_at c cs))" by simp
  then show "(drop (length (snd (match_at c cs))) (c # cs), c # cs) \<in> measure length"
    by simp
qed

text \<open>\<^verbatim>\<open>str.upper\<close>, on the ASCII letters (the only letters a match other than UNKNOWN holds).\<close>

definition upper_char :: "char \<Rightarrow> char" where
  "upper_char c =
     (case map_of (zip ''abcdefghijklmnopqrstuvwxyz'' ''ABCDEFGHIJKLMNOPQRSTUVWXYZ'') c of
        Some u \<Rightarrow> u
      | None \<Rightarrow> c)"

definition upper :: "string \<Rightarrow> string" where
  "upper s = map upper_char s"

text \<open>The \<^verbatim>\<open>for match in re.finditer(...)\<close> loop; \<open>tokens\<close> is the list built so far.\<close>

fun tokenize_loop :: "(kind \<times> string) list \<Rightarrow> string list \<Rightarrow> error + string list" where
  "tokenize_loop [] tokens = Inr tokens"
| "tokenize_loop ((kind, val) # ms) tokens =
     (if kind = OPERATOR then
        tokenize_loop ms
          (tokens @ [case symbol_map (upper val) of Some n \<Rightarrow> n | None \<Rightarrow> upper val])
      else if kind = VARIABLE then tokenize_loop ms (tokens @ [upper val])
      else if kind \<in> {CONSTANT, LPAREN, RPAREN} then tokenize_loop ms (tokens @ [upper val])
      else if kind = WHITESPACE then tokenize_loop ms tokens
      else Inl (ValueError (''Unexpected character: '' @ val)))"

definition tokenize_expression :: "string \<Rightarrow> error + string list" where
  "tokenize_expression expression = tokenize_loop (finditer expression) []"

subsection \<open>\<^verbatim>\<open>convert_to_postfix\<close>\<close>

text \<open>
  The inner \<^verbatim>\<open>while\<close> of the operator branch (lines 76 to 79): pop to the output while
  the top of the stack is an operator that binds at least as tightly. The dictionary reads
  \<^verbatim>\<open>self.associativity_map[token]\<close> and \<^verbatim>\<open>self.precedence_levels[...]\<close> raise KeyError on
  a missing key.
\<close>

fun pop_while :: "string \<Rightarrow> string list \<Rightarrow> string list \<Rightarrow> error + (string list \<times> string list)" where
  "pop_while token output [] = Inr (output, [])"
| "pop_while token output (tos # rest) =
     (if operators tos \<noteq> None then
        (case associativity_map token of
           None \<Rightarrow> Inl (KeyError token)
         | Some a \<Rightarrow>
             (case precedence_levels token of
                None \<Rightarrow> Inl (KeyError token)
              | Some p \<Rightarrow>
                  (case precedence_levels tos of
                     None \<Rightarrow> Inl (KeyError tos)
                   | Some q \<Rightarrow>
                       if (a = ''LEFT'' \<and> p \<le> q) \<or> (a = ''RIGHT'' \<and> p < q)
                       then pop_while token (output @ [tos]) rest
                       else Inr (output, tos # rest))))
      else Inr (output, tos # rest))"

text \<open>The \<^verbatim>\<open>while operators and operators[-1] != '('\<close> loop of the \<^verbatim>\<open>')'\<close> branch.\<close>

fun pop_until_lparen :: "string list \<Rightarrow> string list \<Rightarrow> string list \<times> string list" where
  "pop_until_lparen output [] = (output, [])"
| "pop_until_lparen output (tos # rest) =
     (if tos \<noteq> ''('' then pop_until_lparen (output @ [tos]) rest else (output, tos # rest))"

text \<open>
  The \<^verbatim>\<open>for token in tokens\<close> loop. After the loop of the \<^verbatim>\<open>')'\<close> branch the source calls
  \<^verbatim>\<open>operators.pop()\<close> without looking at the stack: on an empty stack that is IndexError.
\<close>

fun convert_loop :: "string list \<Rightarrow> string list \<Rightarrow> string list \<Rightarrow> error + (string list \<times> string list)" where
  "convert_loop [] output ops = Inr (output, ops)"
| "convert_loop (token # tokens) output ops =
     (if token \<in> variables_set \<or> token \<in> {''TRUE'', ''FALSE''} then
        convert_loop tokens (output @ [token]) ops
      else if operators token \<noteq> None then
        (case pop_while token output ops of
           Inl e \<Rightarrow> Inl e
         | Inr (output', ops') \<Rightarrow> convert_loop tokens output' (token # ops'))
      else if token = ''('' then convert_loop tokens output (token # ops)
      else if token = '')'' then
        (case pop_until_lparen output ops of
           (output', []) \<Rightarrow> Inl IndexError
         | (output', tos # ops') \<Rightarrow> convert_loop tokens output' ops')
      else Inl (ValueError (''Unknown token: '' @ token)))"

text \<open>The final \<^verbatim>\<open>while operators\<close> loop.\<close>

fun drain :: "string list \<Rightarrow> string list \<Rightarrow> error + string list" where
  "drain output [] = Inr output"
| "drain output (tos # rest) =
     (if tos \<in> {''('', '')''} then Inl (ValueError ''Mismatched parentheses'')
      else drain (output @ [tos]) rest)"

definition convert_to_postfix :: "string list \<Rightarrow> error + string list" where
  "convert_to_postfix tokens =
     (case convert_loop tokens [] [] of
        Inl e \<Rightarrow> Inl e
      | Inr (output, ops) \<Rightarrow> drain output ops)"

subsection \<open>\<^verbatim>\<open>evaluate_postfix_expression\<close>\<close>

text \<open>
  A Python dictionary built from a sequence of pairs (\<^verbatim>\<open>dict(zip(...))\<close>, a dictionary
  comprehension): a later pair with the same key overwrites an earlier one.
\<close>

definition dict :: "('k \<times> 'v) list \<Rightarrow> 'k \<rightharpoonup> 'v" where
  "dict kvs = fold (\<lambda>(k, v) m. m(k \<mapsto> v)) kvs Map.empty"

text \<open>The glyph dictionary of the binary branch, read with \<^verbatim>\<open>.get(token, token)\<close>.\<close>

definition operator_symbol :: "string \<Rightarrow> string" where
  "operator_symbol token =
     (case map_of [(''AND'', ''^''), (''OR'', ''v''), (''IMPLIES'', ''->''), (''IFF'', ''<->'')]
             token of
        Some g \<Rightarrow> g
      | None \<Rightarrow> token)"

text \<open>
  One iteration of \<^verbatim>\<open>for token in postfix_tokens\<close>, on the pair of the stack (top first)
  and the list \<^verbatim>\<open>results\<close>. \<^verbatim>\<open>values[token]\<close> raises KeyError on a missing variable,
  \<^verbatim>\<open>stack.pop()\<close> raises IndexError on an empty stack, and calling a lambda with the wrong
  number of arguments raises TypeError.
\<close>

type_synonym entry = "string \<times> bool"

definition eval_token ::
  "(string \<rightharpoonup> bool) \<Rightarrow> string \<Rightarrow> entry list \<times> entry list \<Rightarrow> error + (entry list \<times> entry list)" where
  "eval_token values token sr =
     (case sr of (stack, results) \<Rightarrow>
      if token \<in> variables_set then
        (case values token of
           None \<Rightarrow> Inl (KeyError token)
         | Some v \<Rightarrow> Inr ((token, v) # stack, results))
      else if token \<in> {''TRUE'', ''FALSE''} then
        Inr ((token, token = ''TRUE'') # stack, results)
      else
        (case operators token of
           Some oper \<Rightarrow>
             if token = ''NOT'' then
               (case stack of
                  [] \<Rightarrow> Inl IndexError
                | (a_expr, a_val) # stack1 \<Rightarrow>
                    (case func oper of
                       Unary f \<Rightarrow>
                         Inr ((''~'' @ a_expr, f a_val) # stack1,
                              results @ [(''~'' @ a_expr, f a_val)])
                     | Binary f \<Rightarrow> Inl TypeError))
             else
               (case stack of
                  [] \<Rightarrow> Inl IndexError
                | (b_expr, b_val) # stack1 \<Rightarrow>
                    (case stack1 of
                       [] \<Rightarrow> Inl IndexError
                     | (a_expr, a_val) # stack2 \<Rightarrow>
                         (case func oper of
                            Binary f \<Rightarrow>
                              Inr ((a_expr @ '' '' @ operator_symbol token @ '' '' @ b_expr,
                                      f a_val b_val) # stack2,
                                   results @ [(a_expr @ '' '' @ operator_symbol token @ '' '' @ b_expr,
                                                f a_val b_val)])
                          | Unary f \<Rightarrow> Inl TypeError)))
         | None \<Rightarrow> Inl (ValueError (''Unknown token: '' @ token))))"

fun eval_loop ::
  "(string \<rightharpoonup> bool) \<Rightarrow> string list \<Rightarrow> entry list \<times> entry list \<Rightarrow> error + (entry list \<times> entry list)" where
  "eval_loop values [] sr = Inr sr"
| "eval_loop values (token # rest) sr =
     (case eval_token values token sr of
        Inl e \<Rightarrow> Inl e
      | Inr sr' \<Rightarrow> eval_loop values rest sr')"

definition evaluate_postfix_expression ::
  "string list \<Rightarrow> (string \<rightharpoonup> bool) \<Rightarrow> error + (bool \<times> entry list)" where
  "evaluate_postfix_expression postfix_tokens values =
     (case eval_loop values postfix_tokens ([], []) of
        Inl e \<Rightarrow> Inl e
      | Inr (stack, results) \<Rightarrow>
          if length stack \<noteq> 1 then Inl (ValueError ''Invalid postfix expression'')
          else Inr (snd (stack ! 0), results))"

subsection \<open>\<^verbatim>\<open>create_truth_table\<close>\<close>

text \<open>
  \<^verbatim>\<open>sorted(self.variables_set.intersection(token for token in tokens if token in
  self.variables_set))\<close>: the referenced variables, in the order of Python strings.
\<close>

definition vars_in_expr :: "string list \<Rightarrow> string list" where
  "vars_in_expr tokens =
     sorted_list_of_set (variables_set \<inter> set (filter (\<lambda>token. token \<in> variables_set) tokens))"

text \<open>
  \<^verbatim>\<open>itertools.product(pool, repeat=n)\<close>, as the library documents it: start from the one
  empty tuple and extend every tuple by every element of the pool, once per repetition.
\<close>

fun product :: "'a list \<Rightarrow> nat \<Rightarrow> 'a list list" where
  "product pool 0 = [[]]"
| "product pool (Suc n) = [x @ [y]. x \<leftarrow> product pool n, y \<leftarrow> pool]"

text \<open>\<^verbatim>\<open>list(dict.fromkeys(...))\<close>: the distinct elements in the order of first occurrence.\<close>

definition fromkeys :: "'a list \<Rightarrow> 'a list" where
  "fromkeys xs = fold (\<lambda>x ks. if x \<in> set ks then ks else ks @ [x]) xs []"

text \<open>
  What the method prints, line by line, and what it returns. The three \<^verbatim>\<open>print\<close> calls
  of the header are one \<open>Header\<close>, holding the headers and \<^verbatim>\<open>max_length\<close>; a \<open>Row\<close> holds
  the cells of one printed row, each of which the source renders as \<^verbatim>\<open>TRUE\<close> or
  \<^verbatim>\<open>FALSE\<close> centred to \<^verbatim>\<open>max_length\<close>. \<open>returned\<close> is \<open>Inl\<close> when an exception leaves the
  method.
\<close>

datatype line =
    NoVariablesFound
  | ErrorDuringEvaluation error
  | ErrorEvaluatingExpression error
  | Header "string list" nat
  | Row "bool list"

record outcome =
  printed :: "line list"
  returned :: "error + bool"

text \<open>\<^verbatim>\<open>self.evaluate_postfix_expression(self.convert_to_postfix(tokens), values)\<close>.\<close>

definition convert_and_evaluate ::
  "string list \<Rightarrow> (string \<rightharpoonup> bool) \<Rightarrow> error + (bool \<times> entry list)" where
  "convert_and_evaluate tokens values =
     (case convert_to_postfix tokens of
        Inl e \<Rightarrow> Inl e
      | Inr postfix \<Rightarrow> evaluate_postfix_expression postfix values)"

text \<open>
  The cells of one row: \<^verbatim>\<open>values[var]\<close> for every variable (KeyError on a missing one),
  then \<^verbatim>\<open>sub_results.get(sub, False)\<close> for every header after the variables.
\<close>

fun var_cells :: "(string \<rightharpoonup> bool) \<Rightarrow> string list \<Rightarrow> error + bool list" where
  "var_cells values [] = Inr []"
| "var_cells values (var # vars) =
     (case values var of
        None \<Rightarrow> Inl (KeyError var)
      | Some b \<Rightarrow> (case var_cells values vars of Inl e \<Rightarrow> Inl e | Inr bs \<Rightarrow> Inr (b # bs)))"

definition sub_cells :: "(string \<rightharpoonup> bool) \<Rightarrow> string list \<Rightarrow> bool list" where
  "sub_cells sub_results subs =
     map (\<lambda>sub. case sub_results sub of Some res \<Rightarrow> res | None \<Rightarrow> False) subs"

text \<open>
  The \<^verbatim>\<open>for combo in combinations\<close> loop, with the flag \<^verbatim>\<open>tautology\<close> and the lines
  printed so far. Only ValueError is caught here; any other exception leaves the method.
\<close>

fun rows_loop ::
  "string list \<Rightarrow> string list \<Rightarrow> string list \<Rightarrow> bool list list \<Rightarrow> bool \<Rightarrow> line list \<Rightarrow> outcome" where
  "rows_loop tokens vars headers [] tautology out = \<lparr>printed = out, returned = Inr tautology\<rparr>"
| "rows_loop tokens vars headers (combo # combinations) tautology out =
     (case convert_and_evaluate tokens (dict (zip vars combo)) of
        Inl (ValueError m) \<Rightarrow>
          \<lparr>printed = out @ [ErrorEvaluatingExpression (ValueError m)], returned = Inr False\<rparr>
      | Inl IndexError \<Rightarrow> \<lparr>printed = out, returned = Inl IndexError\<rparr>
      | Inl (KeyError k) \<Rightarrow> \<lparr>printed = out, returned = Inl (KeyError k)\<rparr>
      | Inl TypeError \<Rightarrow> \<lparr>printed = out, returned = Inl TypeError\<rparr>
      | Inr (final_result, intermediate) \<Rightarrow>
          (case var_cells (dict (zip vars combo)) vars of
             Inl e \<Rightarrow> \<lparr>printed = out, returned = Inl e\<rparr>
           | Inr cells \<Rightarrow>
               rows_loop tokens vars headers combinations
                 (if \<not> final_result then False else tautology)
                 (out @ [Row (cells @ sub_cells (dict intermediate) (drop (length vars) headers))])))"

definition create_truth_table :: "string \<Rightarrow> outcome" where
  "create_truth_table expression =
     (case tokenize_expression expression of
        Inl e \<Rightarrow> \<lparr>printed = [], returned = Inl e\<rparr>
      | Inr tokens \<Rightarrow>
          (let vars = vars_in_expr tokens;
               combinations = product [False, True] (length vars)
           in if combinations = [] then \<lparr>printed = [NoVariablesFound], returned = Inr False\<rparr>
              else
                (case convert_and_evaluate tokens (dict (zip vars (combinations ! 0))) of
                   Inl e \<Rightarrow> \<lparr>printed = [ErrorDuringEvaluation e], returned = Inr False\<rparr>
                 | Inr (final0, sub_expressions) \<Rightarrow>
                     (let headers = vars @ fromkeys (map fst sub_expressions)
                      in if headers = [] then
                           \<lparr>printed = [],
                            returned = Inl (ValueError ''max() arg is an empty sequence'')\<rparr>
                         else
                           rows_loop tokens vars headers combinations True
                             [Header headers (Max (set (map length headers)))]))))"

subsection \<open>Auxiliary predicates\<close>

text \<open>The test \<^verbatim>\<open>token in {'TRUE', 'FALSE'}\<close> of the converter and the evaluator.\<close>

definition is_constant :: "string \<Rightarrow> bool" where
  "is_constant t \<longleftrightarrow> t \<in> {''TRUE'', ''FALSE''}"

text \<open>
  The tokens the converter has a branch for, the tokens that can reach its output, and the
  tokens that can sit on its operator stack.
\<close>

definition known_token :: "string \<Rightarrow> bool" where
  "known_token t \<longleftrightarrow>
     t \<in> variables_set \<or> is_constant t \<or> operators t \<noteq> None \<or> t = ''('' \<or> t = '')''"

definition postfix_token :: "string \<Rightarrow> bool" where
  "postfix_token t \<longleftrightarrow> t \<in> variables_set \<or> is_constant t \<or> operators t \<noteq> None"

definition stack_token :: "string \<Rightarrow> bool" where
  "stack_token t \<longleftrightarrow> operators t \<noteq> None \<or> t = ''(''"

text \<open>
  The nesting depth of parentheses after a token sequence, starting from depth \<open>d\<close>;
  \<open>None\<close> when a closing parenthesis has no open one to match.
\<close>

fun depth_after :: "nat \<Rightarrow> string list \<Rightarrow> nat option" where
  "depth_after d [] = Some d"
| "depth_after d (t # ts) =
     (if t = ''('' then depth_after (Suc d) ts
      else if t = '')'' then (case d of 0 \<Rightarrow> None | Suc d' \<Rightarrow> depth_after d' ts)
      else depth_after d ts)"

text \<open>What one iteration of the tokenizer loop appends for a match, or the error it raises.\<close>

definition match_tokens :: "kind \<times> string \<Rightarrow> error + string list" where
  "match_tokens m =
     (case m of (kind, val) \<Rightarrow>
        if kind = OPERATOR then
          Inr [case symbol_map (upper val) of Some n \<Rightarrow> n | None \<Rightarrow> upper val]
        else if kind = VARIABLE then Inr [upper val]
        else if kind \<in> {CONSTANT, LPAREN, RPAREN} then Inr [upper val]
        else if kind = WHITESPACE then Inr []
        else Inl (ValueError (''Unexpected character: '' @ val)))"

section \<open>Properties\<close>

subsection \<open>Unfolding the pipeline on a concrete input\<close>

lemmas tokenize_unfold =
  tokenize_expression_def match_at_def symbol_map_def upper_def upper_char_def is_space_def

lemmas convert_unfold =
  convert_to_postfix_def variables_set_def operators_def precedence_levels_def
  associativity_map_def

lemmas evaluate_unfold =
  evaluate_postfix_expression_def eval_token_def variables_set_def operators_def
  operator_symbol_def dict_def

subsection \<open>One step of the evaluator\<close>

lemma operators_binary_func:
  "operators t = Some oper \<Longrightarrow> t \<noteq> ''NOT'' \<Longrightarrow> \<exists>f. func oper = Binary f"
  by (auto simp: operators_def split: if_splits)
lemma operators_NOT: "operators ''NOT'' = Some (LogicOperator ''NOT'' (Unary (\<lambda>a. \<not> a)))"
  by (simp add: operators_def)
lemma NOT_not_variable: "''NOT'' \<notin> variables_set"
  by (simp add: variables_set_def)
lemma variable_not_operator: "t \<in> variables_set \<Longrightarrow> operators t = None"
  by (auto simp: variables_set_def operators_def)
lemma constant_not_operator: "is_constant t \<Longrightarrow> operators t = None"
  by (auto simp: operators_def is_constant_def)

lemma eval_token_variable:
  "t \<in> variables_set \<Longrightarrow>
   eval_token vals t (st, rs) =
     (case vals t of None \<Rightarrow> Inl (KeyError t) | Some v \<Rightarrow> Inr ((t, v) # st, rs))"
  by (simp add: eval_token_def)

lemma eval_token_constant:
  "t \<notin> variables_set \<Longrightarrow> is_constant t \<Longrightarrow>
   eval_token vals t (st, rs) = Inr ((t, t = ''TRUE'') # st, rs)"
  by (simp add: eval_token_def is_constant_def)

lemma eval_token_NOT:
  "eval_token vals ''NOT'' (st, rs) =
     (case st of
        [] \<Rightarrow> Inl IndexError
      | (a_expr, a_val) # st1 \<Rightarrow>
          Inr ((''~'' @ a_expr, \<not> a_val) # st1, rs @ [(''~'' @ a_expr, \<not> a_val)]))"
  by (simp add: eval_token_def operators_def variables_set_def split: list.splits)

lemma eval_token_binary:
  assumes "operators t = Some oper" and "func oper = Binary f" and
    "t \<noteq> ''NOT''" "t \<notin> variables_set" "\<not> is_constant t"
  shows "eval_token vals t (st, rs) =
     (case st of
        [] \<Rightarrow> Inl IndexError
      | (b_expr, b_val) # st1 \<Rightarrow>
          (case st1 of
             [] \<Rightarrow> Inl IndexError
           | (a_expr, a_val) # st2 \<Rightarrow>
               Inr ((a_expr @ '' '' @ operator_symbol t @ '' '' @ b_expr, f a_val b_val) # st2,
                    rs @ [(a_expr @ '' '' @ operator_symbol t @ '' '' @ b_expr, f a_val b_val)])))"
  using assms by (simp add: eval_token_def is_constant_def split: list.splits)

lemma eval_token_unknown:
  "t \<notin> variables_set \<Longrightarrow> \<not> is_constant t \<Longrightarrow> operators t = None \<Longrightarrow>
   eval_token vals t (st, rs) = Inl (ValueError (''Unknown token: '' @ t))"
  by (simp add: eval_token_def is_constant_def)

lemma eval_token_shape [case_names Var Const Not Bin Unknown]:
  assumes Var: "\<lbrakk>t \<in> variables_set; operators t = None;
      \<forall>vals st rs. eval_token vals t (st, rs) =
         (case vals t of None \<Rightarrow> Inl (KeyError t) | Some v \<Rightarrow> Inr ((t, v) # st, rs))\<rbrakk>
      \<Longrightarrow> thesis"
    and Const: "\<And>b. \<lbrakk>t \<notin> variables_set; is_constant t; operators t = None;
      \<forall>vals st rs. eval_token vals t (st, rs) = Inr ((t, b) # st, rs)\<rbrakk> \<Longrightarrow> thesis"
    and Not: "\<lbrakk>t \<notin> variables_set; operators t \<noteq> None;
      \<forall>vals st rs. eval_token vals t (st, rs) =
         (case st of
            [] \<Rightarrow> Inl IndexError
          | (a_expr, a_val) # st1 \<Rightarrow>
              Inr ((''~'' @ a_expr, \<not> a_val) # st1, rs @ [(''~'' @ a_expr, \<not> a_val)]))\<rbrakk>
      \<Longrightarrow> thesis"
    and Bin: "\<And>f. \<lbrakk>t \<notin> variables_set; operators t \<noteq> None;
      \<forall>vals st rs. eval_token vals t (st, rs) =
         (case st of
            [] \<Rightarrow> Inl IndexError
          | (b_expr, b_val) # st1 \<Rightarrow>
              (case st1 of
                 [] \<Rightarrow> Inl IndexError
               | (a_expr, a_val) # st2 \<Rightarrow>
                   Inr ((a_expr @ '' '' @ operator_symbol t @ '' '' @ b_expr, f a_val b_val) # st2,
                        rs @ [(a_expr @ '' '' @ operator_symbol t @ '' '' @ b_expr,
                               f a_val b_val)])))\<rbrakk> \<Longrightarrow> thesis"
    and Unknown: "\<lbrakk>t \<notin> variables_set; \<not> is_constant t; operators t = None;
      \<forall>vals st rs. eval_token vals t (st, rs) = Inl (ValueError (''Unknown token: '' @ t))\<rbrakk>
      \<Longrightarrow> thesis"
  shows thesis
proof (cases "t \<in> variables_set")
  case True
  show ?thesis
    by (rule Var[OF True variable_not_operator[OF True]])
       (simp add: eval_token_variable[OF True])
next
  case novar: False
  show ?thesis
  proof (cases "is_constant t")
    case True
    show ?thesis
      by (rule Const[OF novar True constant_not_operator[OF True], of "t = ''TRUE''"])
         (simp add: eval_token_constant[OF novar True])
  next
    case noconst: False
    show ?thesis
    proof (cases "operators t")
      case None
      show ?thesis
        by (rule Unknown[OF novar noconst None]) (simp add: eval_token_unknown[OF novar noconst None])
    next
      case (Some oper)
      then have isop: "operators t \<noteq> None" by simp
      show ?thesis
      proof (cases "t = ''NOT''")
        case True
        have "\<forall>vals st rs. eval_token vals t (st, rs) =
         (case st of
            [] \<Rightarrow> Inl IndexError
          | (a_expr, a_val) # st1 \<Rightarrow>
              Inr ((''~'' @ a_expr, \<not> a_val) # st1, rs @ [(''~'' @ a_expr, \<not> a_val)]))"
          unfolding True by (intro allI) (rule eval_token_NOT)
        then show ?thesis by (rule Not[OF novar isop])
      next
        case False
        from operators_binary_func[OF Some False] obtain f where f: "func oper = Binary f" ..
        show ?thesis
          by (rule Bin[OF novar isop, of f])
             (intro allI, rule eval_token_binary[OF Some f False novar noconst])
      qed
    qed
  qed
qed


lemma eval_token_labels:
  assumes "eval_token v1 t (st1, rs1) = Inr (st1', rs1')"
    and "eval_token v2 t (st2, rs2) = Inr (st2', rs2')"
    and "map fst st1 = map fst st2" and "map fst rs1 = map fst rs2"
  shows "map fst st1' = map fst st2' \<and> map fst rs1' = map fst rs2'"
  using assms
  by (cases rule: eval_token_shape[of t]) (auto split: option.splits list.splits)

lemma eval_token_success:
  assumes "length st1 = length st2"
    and "t \<in> variables_set \<longrightarrow> (v1 t = None \<longleftrightarrow> v2 t = None)"
  shows "(\<exists>e1 e2. eval_token v1 t (st1, rs1) = Inl e1 \<and> eval_token v2 t (st2, rs2) = Inl e2) \<or>
         (\<exists>st1' rs1' st2' rs2'. eval_token v1 t (st1, rs1) = Inr (st1', rs1') \<and>
            eval_token v2 t (st2, rs2) = Inr (st2', rs2') \<and> length st1' = length st2')"
  using assms
  by (cases rule: eval_token_shape[of t]) (auto split: option.splits list.splits)

lemma eval_token_error:
  assumes "eval_token vals t sr = Inl e"
  shows "(t \<in> variables_set \<and> vals t = None \<and> e = KeyError t) \<or>
         (operators t \<noteq> None \<and> e = IndexError) \<or>
         (t \<notin> variables_set \<and> \<not> is_constant t \<and> operators t = None \<and>
            e = ValueError (''Unknown token: '' @ t))"
  using assms
  by (cases sr; cases rule: eval_token_shape[of t]) (auto split: option.splits list.splits)

lemma eval_token_missing_variable:
  "t \<in> variables_set \<Longrightarrow> vals t = None \<Longrightarrow> eval_token vals t sr = Inl (KeyError t)"
  by (cases sr) (simp add: eval_token_variable)

subsection \<open>The loop of the evaluator\<close>



lemma eval_loop_labels:
  "eval_loop v1 pf (st1, rs1) = Inr (st1', rs1') \<Longrightarrow>
   eval_loop v2 pf (st2, rs2) = Inr (st2', rs2') \<Longrightarrow>
   map fst st1 = map fst st2 \<Longrightarrow> map fst rs1 = map fst rs2 \<Longrightarrow>
   map fst st1' = map fst st2' \<and> map fst rs1' = map fst rs2'"
proof (induction pf arbitrary: st1 rs1 st2 rs2)
  case Nil
  then show ?case by simp
next
  case (Cons t pf)
  from Cons.prems(1) obtain a1 b1 where
    s1: "eval_token v1 t (st1, rs1) = Inr (a1, b1)" and
    r1: "eval_loop v1 pf (a1, b1) = Inr (st1', rs1')"
    by (auto split: sum.splits)
  from Cons.prems(2) obtain a2 b2 where
    s2: "eval_token v2 t (st2, rs2) = Inr (a2, b2)" and
    r2: "eval_loop v2 pf (a2, b2) = Inr (st2', rs2')"
    by (auto split: sum.splits)
  have "map fst a1 = map fst a2 \<and> map fst b1 = map fst b2"
    by (rule eval_token_labels[OF s1 s2 Cons.prems(3) Cons.prems(4)])
  then show ?case
    using Cons.IH[OF r1 r2] by simp
qed

lemma eval_loop_success:
  "length st1 = length st2 \<Longrightarrow>
   (\<forall>t \<in> set pf. t \<in> variables_set \<longrightarrow> (v1 t = None \<longleftrightarrow> v2 t = None)) \<Longrightarrow>
   (\<exists>e1 e2. eval_loop v1 pf (st1, rs1) = Inl e1 \<and> eval_loop v2 pf (st2, rs2) = Inl e2) \<or>
   (\<exists>st1' rs1' st2' rs2'. eval_loop v1 pf (st1, rs1) = Inr (st1', rs1') \<and>
      eval_loop v2 pf (st2, rs2) = Inr (st2', rs2') \<and> length st1' = length st2')"
proof (induction pf arbitrary: st1 rs1 st2 rs2)
  case Nil
  then show ?case by simp
next
  case (Cons t pf)
  have var: "t \<in> variables_set \<longrightarrow> (v1 t = None \<longleftrightarrow> v2 t = None)"
    using Cons.prems(2) by simp
  have rest: "\<forall>t \<in> set pf. t \<in> variables_set \<longrightarrow> (v1 t = None \<longleftrightarrow> v2 t = None)"
    using Cons.prems(2) by simp
  from eval_token_success[of st1 st2 t v1 v2 rs1 rs2, OF Cons.prems(1) var]
  show ?case
  proof (elim disjE exE conjE)
    fix e1 e2
    assume "eval_token v1 t (st1, rs1) = Inl e1" "eval_token v2 t (st2, rs2) = Inl e2"
    then show ?thesis by simp
  next
    fix a1 b1 a2 b2
    assume s: "eval_token v1 t (st1, rs1) = Inr (a1, b1)"
      "eval_token v2 t (st2, rs2) = Inr (a2, b2)" and len: "length a1 = length a2"
    from Cons.IH[OF len rest, of b1 b2] show ?thesis
      using s by simp
  qed
qed

lemma eval_loop_missing_variable:
  "t \<in> set pf \<Longrightarrow> t \<in> variables_set \<Longrightarrow> vals t = None \<Longrightarrow> \<exists>e. eval_loop vals pf sr = Inl e"
proof (induction pf arbitrary: sr)
  case Nil
  then show ?case by simp
next
  case (Cons u pf)
  show ?case
  proof (cases "eval_token vals u sr")
    case (Inl e)
    then show ?thesis by simp
  next
    case (Inr sr')
    have "u \<noteq> t"
      using Inr eval_token_missing_variable[of t vals sr, OF Cons.prems(2) Cons.prems(3)] by auto
    then have "t \<in> set pf" using Cons.prems(1) by simp
    from Cons.IH[OF this Cons.prems(2) Cons.prems(3), of sr'] show ?thesis
      using Inr by simp
  qed
qed

lemma eval_loop_error:
  "eval_loop vals pf sr = Inl e \<Longrightarrow>
   \<exists>t \<in> set pf. (t \<in> variables_set \<and> vals t = None \<and> e = KeyError t) \<or>
         (operators t \<noteq> None \<and> e = IndexError) \<or>
         (t \<notin> variables_set \<and> \<not> is_constant t \<and> operators t = None \<and>
            e = ValueError (''Unknown token: '' @ t))"
proof (induction pf arbitrary: sr)
  case Nil
  then show ?case by simp
next
  case (Cons u pf)
  show ?case
  proof (cases "eval_token vals u sr")
    case (Inl e')
    with Cons.prems have "e' = e" by simp
    with Inl have "eval_token vals u sr = Inl e" by simp
    from eval_token_error[OF this] show ?thesis by simp
  next
    case (Inr sr')
    with Cons.prems have "eval_loop vals pf sr' = Inl e" by simp
    from Cons.IH[OF this] show ?thesis by auto
  qed
qed

subsection \<open>The converter and the nesting of parentheses\<close>

lemma paren_not_postfix_token: "\<not> postfix_token ''(''" "\<not> postfix_token '')''"
  by (simp_all add: postfix_token_def variables_set_def is_constant_def operators_def)

lemma postfix_token_not_paren: "postfix_token t \<Longrightarrow> t \<noteq> ''('' \<and> t \<noteq> '')''"
  using paren_not_postfix_token by auto

lemma operator_lookups:
  "operators t \<noteq> None \<Longrightarrow>
     (\<exists>a. associativity_map t = Some a) \<and> (\<exists>p. precedence_levels t = Some p)"
  by (simp add: operators_def associativity_map_def precedence_levels_def split: if_splits)

lemma convert_loop_operand:
  "t \<in> variables_set \<or> is_constant t \<Longrightarrow>
   convert_loop (t # ts) out ops = convert_loop ts (out @ [t]) ops"
  by (simp add: is_constant_def)

lemma convert_loop_operator:
  "t \<notin> variables_set \<Longrightarrow> \<not> is_constant t \<Longrightarrow> operators t \<noteq> None \<Longrightarrow>
   convert_loop (t # ts) out ops =
     (case pop_while t out ops of
        Inl e \<Rightarrow> Inl e
      | Inr (out', ops') \<Rightarrow> convert_loop ts out' (t # ops'))"
  by (simp add: is_constant_def)

lemma convert_loop_lparen:
  "convert_loop (''('' # ts) out ops = convert_loop ts out (''('' # ops)"
  by (simp add: variables_set_def operators_def)

lemma convert_loop_rparen:
  "convert_loop ('')'' # ts) out ops =
     (case pop_until_lparen out ops of
        (out', []) \<Rightarrow> Inl IndexError
      | (out', tos # ops') \<Rightarrow> convert_loop ts out' ops')"
  by (simp add: variables_set_def operators_def)

lemma convert_loop_unknown:
  "\<not> known_token t \<Longrightarrow>
   convert_loop (t # ts) out ops = Inl (ValueError (''Unknown token: '' @ t))"
  by (simp add: known_token_def is_constant_def)

lemma pop_while_ok:
  assumes "operators token \<noteq> None"
  shows "\<exists>out' ops'. pop_while token out ops = Inr (out', ops') \<and>
           count_list ops' ''('' = count_list ops ''('' \<and>
           ((\<forall>t \<in> set ops. stack_token t) \<longrightarrow> (\<forall>t \<in> set ops'. stack_token t)) \<and>
           ((\<forall>t \<in> set out. postfix_token t) \<longrightarrow> (\<forall>t \<in> set out'. postfix_token t))"
proof (induction ops arbitrary: out)
  case Nil
  show ?case by simp
next
  case (Cons tos rest)
  from operator_lookups[OF assms] obtain a p where
    a: "associativity_map token = Some a" and p: "precedence_levels token = Some p"
    by auto
  show ?case
  proof (cases "operators tos \<noteq> None")
    case False
    then show ?thesis by simp
  next
    case True
    from operator_lookups[OF True] obtain q where q: "precedence_levels tos = Some q"
      by auto
    have tos: "postfix_token tos" "tos \<noteq> ''(''"
      using True postfix_token_not_paren[of tos] by (simp_all add: postfix_token_def)
    show ?thesis
    proof (cases "(a = ''LEFT'' \<and> p \<le> q) \<or> (a = ''RIGHT'' \<and> p < q)")
      case nopop: False
      have "pop_while token out (tos # rest) = Inr (out, tos # rest)"
        using True a p q by (simp add: nopop)
      then show ?thesis by simp
    next
      case pop: True
      from Cons.IH[of "out @ [tos]"] obtain out' ops' where
        r: "pop_while token (out @ [tos]) rest = Inr (out', ops')" and
        c: "count_list ops' ''('' = count_list rest ''(''" and
        s: "(\<forall>t \<in> set rest. stack_token t) \<longrightarrow> (\<forall>t \<in> set ops'. stack_token t)" and
        o: "(\<forall>t \<in> set (out @ [tos]). postfix_token t) \<longrightarrow> (\<forall>t \<in> set out'. postfix_token t)"
        by blast
      have "pop_while token out (tos # rest) = Inr (out', ops')"
        using True a p q r by (simp add: pop)
      moreover have "count_list ops' ''('' = count_list (tos # rest) ''(''"
        using c tos(2) by simp
      moreover have "(\<forall>t \<in> set (tos # rest). stack_token t) \<longrightarrow> (\<forall>t \<in> set ops'. stack_token t)"
        using s by simp
      moreover have "(\<forall>t \<in> set out. postfix_token t) \<longrightarrow> (\<forall>t \<in> set out'. postfix_token t)"
        using o tos(1) by simp
      ultimately show ?thesis by blast
    qed
  qed
qed

lemma pop_until_lparen_eq:
  "pop_until_lparen out ops =
     (out @ takeWhile (\<lambda>t. t \<noteq> ''('') ops, dropWhile (\<lambda>t. t \<noteq> ''('') ops)"
  by (induction ops arbitrary: out) simp_all

lemma dropWhile_neq_cases:
  "(count_list xs x = 0 \<and> dropWhile (\<lambda>t. t \<noteq> x) xs = []) \<or>
   (\<exists>rest. dropWhile (\<lambda>t. t \<noteq> x) xs = x # rest \<and> Suc (count_list rest x) = count_list xs x
       \<and> set rest \<subseteq> set xs)"
  by (induction xs) auto

lemma drain_eq:
  "\<forall>t \<in> set ops. stack_token t \<Longrightarrow>
   drain out ops =
     (if count_list ops ''('' = 0 then Inr (out @ ops)
      else Inl (ValueError ''Mismatched parentheses''))"
proof (induction ops arbitrary: out)
  case Nil
  show ?case by simp
next
  case (Cons tos rest)
  show ?case
  proof (cases "tos = ''(''")
    case True
    then show ?thesis by simp
  next
    case False
    with Cons.prems have "operators tos \<noteq> None" by (simp add: stack_token_def)
    then have "postfix_token tos" by (simp add: postfix_token_def)
    from postfix_token_not_paren[OF this] have "tos \<notin> {''('', '')''}" by simp
    then have "drain out (tos # rest) = drain (out @ [tos]) rest"
      by (simp del: insert_iff)
    with Cons.IH[of "out @ [tos]"] Cons.prems False show ?thesis by simp
  qed
qed

lemma depth_after_other:
  "t \<noteq> ''('' \<Longrightarrow> t \<noteq> '')'' \<Longrightarrow> depth_after d (t # ts) = depth_after d ts"
  by simp

lemma depth_after_lparen: "depth_after d (''('' # ts) = depth_after (Suc d) ts"
  by simp

lemma depth_after_rparen:
  "depth_after d ('')'' # ts) = (case d of 0 \<Rightarrow> None | Suc d' \<Rightarrow> depth_after d' ts)"
  by simp

lemma convert_loop_depth:
  assumes "\<forall>t \<in> set tokens. known_token t"
    and "\<forall>t \<in> set ops. stack_token t"
    and "\<forall>t \<in> set out. postfix_token t"
  shows "(depth_after (count_list ops ''('') tokens = None \<longrightarrow>
            convert_loop tokens out ops = Inl IndexError) \<and>
         (\<forall>d'. depth_after (count_list ops ''('') tokens = Some d' \<longrightarrow>
            (\<exists>out' ops'. convert_loop tokens out ops = Inr (out', ops') \<and>
               count_list ops' ''('' = d' \<and>
               (\<forall>t \<in> set ops'. stack_token t) \<and> (\<forall>t \<in> set out'. postfix_token t)))"
  using assms
proof (induction tokens arbitrary: out ops)
  case Nil
  then show ?case by simp
next
  case (Cons t ts)
  have known: "known_token t" and rest: "\<forall>t \<in> set ts. known_token t"
    using Cons.prems(1) by simp_all
  note ops = Cons.prems(2) and out = Cons.prems(3)
  show ?case
  proof (cases "postfix_token t")
    case pt: True
    from postfix_token_not_paren[OF pt] have np: "t \<noteq> ''(''" "t \<noteq> '')''" by simp_all
    have d: "depth_after (count_list ops ''('') (t # ts) = depth_after (count_list ops ''('') ts"
      by (rule depth_after_other[OF np])
    show ?thesis
    proof (cases "t \<in> variables_set \<or> is_constant t")
      case True
      have out': "\<forall>u \<in> set (out @ [t]). postfix_token u" using out pt by simp
      show ?thesis
        unfolding d convert_loop_operand[OF True]
        by (rule Cons.IH[OF rest ops out'])
    next
      case False
      then have nv: "t \<notin> variables_set" and nc: "\<not> is_constant t" by simp_all
      with pt have op: "operators t \<noteq> None" by (simp add: postfix_token_def)
      from pop_while_ok[OF op, of out ops] ops out obtain out1 ops1 where
        pw: "pop_while t out ops = Inr (out1, ops1)" and
        c1: "count_list ops1 ''('' = count_list ops ''(''" and
        s1: "\<forall>u \<in> set ops1. stack_token u" and
        o1: "\<forall>u \<in> set out1. postfix_token u"
        by blast
      have s2: "\<forall>u \<in> set (t # ops1). stack_token u"
        using s1 op by (simp add: stack_token_def)
      have c2: "count_list (t # ops1) ''('' = count_list ops ''(''"
        using c1 np(1) by simp
      have step: "convert_loop (t # ts) out ops = convert_loop ts out1 (t # ops1)"
        unfolding convert_loop_operator[OF nv nc op] pw by simp
      from Cons.IH[OF rest s2 o1] show ?thesis
        unfolding c2 d step .
    qed
  next
    case npt: False
    with known have paren: "t = ''('' \<or> t = '')''"
      by (simp add: known_token_def postfix_token_def)
    show ?thesis
    proof (cases "t = ''(''")
      case True
      have s2: "\<forall>u \<in> set (''('' # ops). stack_token u"
        using ops by (simp add: stack_token_def)
      have c2: "count_list (''('' # ops) ''('' = Suc (count_list ops ''('')" by simp
      show ?thesis
        unfolding True depth_after_lparen convert_loop_lparen c2[symmetric]
        by (rule Cons.IH[OF rest s2 out])
    next
      case False
      with paren have t: "t = '')''" by simp
      from dropWhile_neq_cases[of ops "''(''"] show ?thesis
      proof (elim disjE conjE exE)
        assume z: "count_list ops ''('' = 0" and e: "dropWhile (\<lambda>t. t \<noteq> ''('') ops = []"
        show ?thesis
          unfolding t depth_after_rparen convert_loop_rparen pop_until_lparen_eq
          by (simp add: z e)
      next
        fix rest'
        assume e: "dropWhile (\<lambda>t. t \<noteq> ''('') ops = ''('' # rest'"
          and c: "Suc (count_list rest' ''('') = count_list ops ''(''"
          and sub: "set rest' \<subseteq> set ops"
        have s2: "\<forall>u \<in> set rest'. stack_token u" using ops sub by blast
        have o2: "\<forall>u \<in> set (out @ takeWhile (\<lambda>t. t \<noteq> ''('') ops). postfix_token u"
        proof
          fix u assume "u \<in> set (out @ takeWhile (\<lambda>t. t \<noteq> ''('') ops)"
          then consider "u \<in> set out" | "u \<in> set (takeWhile (\<lambda>t. t \<noteq> ''('') ops)" by auto
          then show "postfix_token u"
          proof cases
            case 1
            with out show ?thesis by simp
          next
            case 2
            then have "u \<in> set ops" "u \<noteq> ''(''"
              by (auto dest: set_takeWhileD)
            with ops show ?thesis by (auto simp: stack_token_def postfix_token_def)
          qed
        qed
        have step: "convert_loop ('')'' # ts) out ops
            = convert_loop ts (out @ takeWhile (\<lambda>t. t \<noteq> ''('') ops) rest'"
          unfolding convert_loop_rparen pop_until_lparen_eq by (simp add: e)
        have d: "depth_after (count_list ops ''('') ('')'' # ts)
            = depth_after (count_list rest' ''('') ts"
          unfolding depth_after_rparen c[symmetric] by simp
        show ?thesis
          unfolding t step d
          by (rule Cons.IH[OF rest s2 o2])
      qed
    qed
  qed
qed

lemma convert_to_postfix_depth:
  assumes "\<forall>t \<in> set tokens. known_token t"
  shows "(depth_after 0 tokens = None \<longrightarrow> convert_to_postfix tokens = Inl IndexError) \<and>
         (\<forall>d. depth_after 0 tokens = Some (Suc d) \<longrightarrow>
            convert_to_postfix tokens = Inl (ValueError ''Mismatched parentheses'')) \<and>
         (depth_after 0 tokens = Some 0 \<longrightarrow>
            (\<exists>postfix. convert_to_postfix tokens = Inr postfix \<and>
               (\<forall>t \<in> set postfix. postfix_token t)))"
proof -
  have inv: "(depth_after (count_list [] ''('') tokens = None \<longrightarrow>
            convert_loop tokens [] [] = Inl IndexError) \<and>
         (\<forall>d'. depth_after (count_list [] ''('') tokens = Some d' \<longrightarrow>
            (\<exists>out' ops'. convert_loop tokens [] [] = Inr (out', ops') \<and>
               count_list ops' ''('' = d' \<and>
               (\<forall>t \<in> set ops'. stack_token t) \<and> (\<forall>t \<in> set out'. postfix_token t)))"
    by (rule convert_loop_depth[OF assms]) simp_all
  show ?thesis
  proof (cases "depth_after 0 tokens")
    case None
    with inv show ?thesis by (simp add: convert_to_postfix_def)
  next
    case (Some d)
    with inv obtain out' ops' where
      r: "convert_loop tokens [] [] = Inr (out', ops')" and
      c: "count_list ops' ''('' = d" and
      s: "\<forall>t \<in> set ops'. stack_token t" and
      o: "\<forall>t \<in> set out'. postfix_token t"
      by auto
    have conv: "convert_to_postfix tokens = drain out' ops'"
      by (simp add: convert_to_postfix_def r)
    show ?thesis
    proof (cases d)
      case 0
      have "drain out' ops' = Inr (out' @ ops')"
        using drain_eq[OF s, of out'] c 0 by simp
      moreover have "\<forall>t \<in> set (out' @ ops'). postfix_token t"
      proof
        fix t assume "t \<in> set (out' @ ops')"
        then consider "t \<in> set out'" | "t \<in> set ops'" by auto
        then show "postfix_token t"
        proof cases
          case 1
          with o show ?thesis by simp
        next
          case 2
          with c 0 have "t \<noteq> ''(''" by (auto simp: count_list_0_iff)
          with s 2 show ?thesis by (auto simp: stack_token_def postfix_token_def)
        qed
      qed
      ultimately show ?thesis using Some 0 conv by simp
    next
      case (Suc d0)
      have "drain out' ops' = Inl (ValueError ''Mismatched parentheses'')"
        using drain_eq[OF s, of out'] c Suc by simp
      then show ?thesis using Some Suc conv by simp
    qed
  qed
qed

subsection \<open>The tokens the tokenizer emits\<close>

lemma tokenize_loop_Cons:
  "tokenize_loop (m # ms) acc =
     (case match_tokens m of Inl e \<Rightarrow> Inl e | Inr ts \<Rightarrow> tokenize_loop ms (acc @ ts))"
  by (cases m) (simp add: match_tokens_def)

lemma tokenize_loop_acc:
  "tokenize_loop ms acc =
     (case tokenize_loop ms [] of Inl e \<Rightarrow> Inl e | Inr ts \<Rightarrow> Inr (acc @ ts))"
proof (induction ms arbitrary: acc)
  case Nil
  show ?case by simp
next
  case (Cons m ms)
  show ?case
  proof (cases "match_tokens m")
    case (Inl e)
    then show ?thesis by (simp add: tokenize_loop_Cons)
  next
    case (Inr ts)
    show ?thesis
      unfolding tokenize_loop_Cons Inr
      using Cons.IH[of "acc @ ts"] Cons.IH[of "[] @ ts"]
      by (simp split: sum.splits)
  qed
qed

lemma tokenize_expression_Cons:
  "tokenize_expression (c # cs) =
     (case match_tokens (match_at c cs) of
        Inl e \<Rightarrow> Inl e
      | Inr ts \<Rightarrow>
          (case tokenize_expression (drop (length (snd (match_at c cs))) (c # cs)) of
             Inl e \<Rightarrow> Inl e
           | Inr ts' \<Rightarrow> Inr (ts @ ts')))"
proof (cases "match_tokens (match_at c cs)")
  case (Inl e)
  then show ?thesis
    by (simp add: tokenize_expression_def tokenize_loop_Cons)
next
  case (Inr ts)
  have "tokenize_expression (c # cs) =
      tokenize_loop (finditer (drop (length (snd (match_at c cs))) (c # cs))) ts"
    by (simp add: tokenize_expression_def tokenize_loop_Cons Inr)
  also have "\<dots> =
      (case tokenize_loop (finditer (drop (length (snd (match_at c cs))) (c # cs))) [] of
         Inl e \<Rightarrow> Inl e
       | Inr ts' \<Rightarrow> Inr (ts @ ts'))"
    by (rule tokenize_loop_acc)
  finally show ?thesis
    by (simp add: Inr tokenize_expression_def)
qed

lemma tokenize_expression_Nil: "tokenize_expression [] = Inr []"
  by (simp add: tokenize_expression_def)

lemma match_at_cases:
  "fst (match_at c cs) = LPAREN \<and> snd (match_at c cs) = ''('' \<or>
   fst (match_at c cs) = RPAREN \<and> snd (match_at c cs) = '')'' \<or>
   fst (match_at c cs) = OPERATOR \<and>
     snd (match_at c cs) \<in> set [''<->'', ''->'', ''~'', ''^'', ''or'', ''AND'', ''OR'', ''NOT'',
                                ''IMPLIES'', ''IFF''] \<or>
   fst (match_at c cs) = VARIABLE \<and>
     snd (match_at c cs) \<in> set [''P'', ''Q'', ''R'', ''p'', ''q'', ''r''] \<or>
   fst (match_at c cs) = CONSTANT \<and> snd (match_at c cs) \<in> set [''TRUE'', ''FALSE''] \<or>
   fst (match_at c cs) = WHITESPACE \<or>
   fst (match_at c cs) = UNKNOWN"
  unfolding match_at_def
  by (auto split: option.splits dest!: first_prefix_Some)

lemma known_token_iff:
  "known_token t \<longleftrightarrow>
     t \<in> set [''P'', ''Q'', ''R'', ''TRUE'', ''FALSE'', ''NOT'', ''AND'', ''OR'', ''IMPLIES'',
               ''IFF'', ''('', '')'']"
  by (auto simp: known_token_def variables_set_def is_constant_def operators_def)

lemma known_token_upper: "known_token t \<Longrightarrow> upper t = t"
  unfolding known_token_iff by (auto simp: upper_def upper_char_def)

lemma operator_lexemes_known:
  "\<forall>v \<in> set [''<->'', ''->'', ''~'', ''^'', ''or'', ''AND'', ''OR'', ''NOT'', ''IMPLIES'', ''IFF''].
     known_token (case symbol_map (upper v) of Some n \<Rightarrow> n | None \<Rightarrow> upper v)"
  by (simp add: known_token_iff symbol_map_def upper_def upper_char_def)

lemma other_lexemes_known:
  "\<forall>v \<in> set [''P'', ''Q'', ''R'', ''p'', ''q'', ''r'', ''TRUE'', ''FALSE'', ''('', '')''].
     known_token (upper v)"
  by (simp add: known_token_iff upper_def upper_char_def)

lemma match_tokens_known:
  assumes "match_tokens (match_at c cs) = Inr ts"
  shows "\<forall>t \<in> set ts. known_token t"
proof -
  obtain k v where m: "match_at c cs = (k, v)" by (cases "match_at c cs")
  from match_at_cases[of c cs] show ?thesis
  proof (elim disjE conjE)
    assume "fst (match_at c cs) = OPERATOR" and
      "snd (match_at c cs) \<in> set [''<->'', ''->'', ''~'', ''^'', ''or'', ''AND'', ''OR'', ''NOT'',
                                ''IMPLIES'', ''IFF'']"
    then have k: "k = OPERATOR" and v: "v \<in> set [''<->'', ''->'', ''~'', ''^'', ''or'', ''AND'', ''OR'', ''NOT'',
                                ''IMPLIES'', ''IFF'']"
      unfolding m by auto
    have "known_token (case symbol_map (upper v) of Some n \<Rightarrow> n | None \<Rightarrow> upper v)"
      by (rule bspec[OF operator_lexemes_known v])
    with assms k show ?thesis by (auto simp: m match_tokens_def)
  next
    assume "fst (match_at c cs) = VARIABLE" and
      "snd (match_at c cs) \<in> set [''P'', ''Q'', ''R'', ''p'', ''q'', ''r'']"
    then have k: "k = VARIABLE" and v: "v \<in> set [''P'', ''Q'', ''R'', ''p'', ''q'', ''r'', ''TRUE'', ''FALSE'', ''('', '')'']"
      unfolding m by auto
    have "known_token (upper v)" by (rule bspec[OF other_lexemes_known v])
    with assms k show ?thesis by (auto simp: m match_tokens_def)
  next
    assume "fst (match_at c cs) = CONSTANT" and
      "snd (match_at c cs) \<in> set [''TRUE'', ''FALSE'']"
    then have k: "k = CONSTANT" and v: "v \<in> set [''P'', ''Q'', ''R'', ''p'', ''q'', ''r'', ''TRUE'', ''FALSE'', ''('', '')'']"
      unfolding m by auto
    have "known_token (upper v)" by (rule bspec[OF other_lexemes_known v])
    with assms k show ?thesis by (auto simp: m match_tokens_def)
  next
    assume "fst (match_at c cs) = LPAREN" and
      "snd (match_at c cs) = ''(''"
    then have k: "k = LPAREN" and v: "v \<in> set [''P'', ''Q'', ''R'', ''p'', ''q'', ''r'', ''TRUE'', ''FALSE'', ''('', '')'']"
      unfolding m by auto
    have "known_token (upper v)" by (rule bspec[OF other_lexemes_known v])
    with assms k show ?thesis by (auto simp: m match_tokens_def)
  next
    assume "fst (match_at c cs) = RPAREN" and
      "snd (match_at c cs) = '')''"
    then have k: "k = RPAREN" and v: "v \<in> set [''P'', ''Q'', ''R'', ''p'', ''q'', ''r'', ''TRUE'', ''FALSE'', ''('', '')'']"
      unfolding m by auto
    have "known_token (upper v)" by (rule bspec[OF other_lexemes_known v])
    with assms k show ?thesis by (auto simp: m match_tokens_def)
  next
    assume "fst (match_at c cs) = WHITESPACE"
    with assms show ?thesis by (auto simp: m match_tokens_def)
  next
    assume "fst (match_at c cs) = UNKNOWN"
    with assms show ?thesis by (auto simp: m match_tokens_def)
  qed
qed

lemma tokenize_known:
  "tokenize_expression s = Inr tokens \<Longrightarrow> \<forall>t \<in> set tokens. known_token t"
proof (induction s arbitrary: tokens rule: finditer.induct)
  case 1
  then show ?case by (simp add: tokenize_expression_Nil)
next
  case (2 c cs)
  from "2.prems" obtain ts ts' where
    h: "match_tokens (match_at c cs) = Inr ts" and
    r: "tokenize_expression (drop (length (snd (match_at c cs))) (c # cs)) = Inr ts'" and
    t: "tokens = ts @ ts'"
    unfolding tokenize_expression_Cons by (auto split: sum.splits)
  from match_tokens_known[OF h] "2.IH"[OF r] show ?case
    unfolding t by auto
qed

subsection \<open>The enumeration of the assignments\<close>

lemma concat_pairs_length: "length (concat (map (\<lambda>x. [f x, g x]) xs)) = 2 * length xs"
  by (induction xs) simp_all

lemma concat_pairs_nth:
  "i < 2 * length xs \<Longrightarrow>
   concat (map (\<lambda>x. [f x, g x]) xs) ! i = (if even i then f (xs ! (i div 2)) else g (xs ! (i div 2)))"
proof (induction xs arbitrary: i)
  case Nil
  then show ?case by simp
next
  case (Cons x xs)
  show ?case
  proof (cases i)
    case 0
    then show ?thesis by simp
  next
    case (Suc j)
    show ?thesis
    proof (cases j)
      case 0
      with Suc show ?thesis by simp
    next
      case (Suc k)
      with \<open>i = Suc j\<close> have i: "i = Suc (Suc k)" by simp
      with Cons.prems have "k < 2 * length xs" by simp
      from Cons.IH[OF this] show ?thesis by (simp add: i)
    qed
  qed
qed

lemma product_Suc_pairs:
  "product [False, True] (Suc n) = concat (map (\<lambda>x. [x @ [False], x @ [True]]) (product [False, True] n))"
  by simp

lemma length_product: "length (product [False, True] n) = 2 ^ n"
  by (induction n) (simp_all add: concat_pairs_length del: product.simps(2) add: product_Suc_pairs)

lemma product_nonempty: "product [False, True] n \<noteq> []"
proof
  assume "product [False, True] n = []"
  then have "length (product [False, True] n) = 0" by simp
  then show False by (simp add: length_product)
qed

lemma product_elem_length: "xs \<in> set (product pool n) \<Longrightarrow> length xs = n"
  by (induction n arbitrary: xs) auto

lemma product_nth_Suc:
  assumes "i < 2 ^ Suc n"
  shows "product [False, True] (Suc n) ! i = product [False, True] n ! (i div 2) @ [odd i]"
proof -
  have "i < 2 * length (product [False, True] n)"
    using assms by (simp add: length_product)
  from concat_pairs_nth[OF this, of "\<lambda>x. x @ [False]" "\<lambda>x. x @ [True]"]
  show ?thesis unfolding product_Suc_pairs by simp
qed

lemma product_nth_bit:
  "i < 2 ^ n \<Longrightarrow> j < n \<Longrightarrow> product [False, True] n ! i ! j = odd (i div 2 ^ (n - 1 - j))"
proof (induction n arbitrary: i j)
  case 0
  then show ?case by simp
next
  case (Suc n)
  have half: "i div 2 < 2 ^ n" using Suc.prems(1) by simp
  have len: "length (product [False, True] n ! (i div 2)) = n"
    by (rule product_elem_length[of _ "[False, True]"], rule nth_mem) (simp add: half length_product)
  show ?case
  proof (cases "j < n")
    case True
    have "product [False, True] (Suc n) ! i ! j = product [False, True] n ! (i div 2) ! j"
      unfolding product_nth_Suc[OF Suc.prems(1)] using True len by (simp add: nth_append)
    also have "\<dots> = odd ((i div 2) div 2 ^ (n - 1 - j))"
      by (rule Suc.IH[OF half True])
    also have "(i div 2) div 2 ^ (n - 1 - j) = i div 2 ^ (Suc n - 1 - j)"
    proof -
      have "Suc n - 1 - j = Suc (n - 1 - j)" using True by simp
      then show ?thesis by (simp add: div_mult2_eq)
    qed
    finally show ?thesis .
  next
    case False
    with Suc.prems(2) have j: "j = n" by simp
    show ?thesis
      unfolding product_nth_Suc[OF Suc.prems(1)] using len by (simp add: j nth_append)
  qed
qed

subsection \<open>Dictionaries built from pairs\<close>

lemma dict_fold: "fold (\<lambda>(k, v) m. m(k \<mapsto> v)) kvs m0 = m0 ++ map_of (rev kvs)"
  by (induction kvs arbitrary: m0) (auto simp: map_add_upd_left)

lemma dict_map_of_rev: "dict kvs = map_of (rev kvs)"
  by (simp add: dict_def dict_fold)

lemma map_of_rev_distinct: "distinct (map fst xs) \<Longrightarrow> map_of (rev xs) = map_of xs"
proof (induction xs)
  case Nil
  then show ?case by simp
next
  case (Cons x xs)
  obtain k v where x: "x = (k, v)" by (cases x)
  from Cons.prems have notin: "map_of xs k = None"
    by (simp add: x map_of_eq_None_iff)
  from Cons have ih: "map_of (rev xs) = map_of xs" by simp
  show ?case
    using notin by (auto simp: x ih map_add_def fun_eq_iff split: option.splits)
qed

lemma dict_zip:
  "distinct ks \<Longrightarrow> length ks = length vs \<Longrightarrow> dict (zip ks vs) = map_of (zip ks vs)"
  by (simp add: dict_map_of_rev map_of_rev_distinct)

lemma var_cells_nth:
  "length vs = length bs \<Longrightarrow> (\<forall>i < length vs. m (vs ! i) = Some (bs ! i)) \<Longrightarrow>
   var_cells m vs = Inr bs"
proof (induction vs arbitrary: bs)
  case Nil
  then show ?case by simp
next
  case (Cons v vs)
  then obtain b bs' where bs: "bs = b # bs'" by (cases bs) auto
  have hd: "m v = Some b" using Cons.prems(2) bs by force
  have "\<forall>i < length vs. m (vs ! i) = Some (bs' ! i)"
    using Cons.prems(2) bs by force
  with Cons.IH[of bs'] Cons.prems(1) bs have "var_cells m vs = Inr bs'" by simp
  with hd show ?case by (simp add: bs)
qed

lemma var_cells_dict_zip:
  assumes "distinct vs" "length vs = length bs"
  shows "var_cells (dict (zip vs bs)) vs = Inr bs"
proof (rule var_cells_nth[OF assms(2)])
  show "\<forall>i<length vs. dict (zip vs bs) (vs ! i) = Some (bs ! i)"
    using assms by (simp add: dict_zip map_of_zip_nth)
qed

lemma dict_zip_None:
  "distinct vs \<Longrightarrow> length vs = length bs \<Longrightarrow> (dict (zip vs bs) v = None) = (v \<notin> set vs)"
  by (simp add: dict_zip)

subsection \<open>The referenced variables\<close>

lemma vars_in_expr_filter:
  "vars_in_expr tokens = filter (\<lambda>v. v \<in> set tokens) [''P'', ''Q'', ''R'']"
proof -
  let ?xs = "filter (\<lambda>v. v \<in> set tokens) [''P'', ''Q'', ''R'']"
  have s: "sorted [''P'', ''Q'', ''R'']" by simp
  have d: "distinct [''P'', ''Q'', ''R'']" by simp
  have "sorted ?xs" using s by (rule sorted_wrt_filter)
  moreover have "distinct ?xs" using d by (rule distinct_filter)
  moreover have "set ?xs = variables_set \<inter> set (filter (\<lambda>token. token \<in> variables_set) tokens)"
    by (auto simp: variables_set_def)
  ultimately show ?thesis
    unfolding vars_in_expr_def
    by (metis sorted_list_of_set.idem_if_sorted_distinct)
qed

subsection \<open>Grouping of operators of equal precedence\<close>

text \<open>
  Claim C1, as amended. AND and OR both have precedence 2 and both are left-associative,
  so on the tokens of \<^verbatim>\<open>P OR Q AND R\<close> the converter pops OR when it meets AND: the
  postfix sequence is \<^verbatim>\<open>P Q OR R AND\<close>, which applies OR to P and Q first and AND last,
  that is \<^verbatim>\<open>(P OR Q) AND R\<close>. With P true and Q, R false the evaluator labels the two
  steps \<^verbatim>\<open>P v Q\<close> and \<^verbatim>\<open>P v Q ^ R\<close> and the final value is false, where
  \<^verbatim>\<open>P OR (Q AND R)\<close> would be true.
\<close>

theorem postfix_of_P_OR_Q_AND_R:
  "tokenize_expression ''P OR Q AND R'' = Inr [''P'', ''OR'', ''Q'', ''AND'', ''R''] \<and>
   convert_to_postfix [''P'', ''OR'', ''Q'', ''AND'', ''R'']
     = Inr [''P'', ''Q'', ''OR'', ''R'', ''AND''] \<and>
   evaluate_postfix_expression [''P'', ''Q'', ''OR'', ''R'', ''AND'']
       (dict [(''P'', True), (''Q'', False), (''R'', False)])
     = Inr (False, [(''P v Q'', True), (''P v Q ^ R'', False)])"
  by (simp add: tokenize_unfold convert_unfold evaluate_unfold)

text \<open>
  Claim C1, as stated, fails: the postfix sequence of \<^verbatim>\<open>P OR (Q AND R)\<close>, which applies
  AND to Q and R first and OR last, is \<^verbatim>\<open>P Q R AND OR\<close>, and the converter does not
  return it.
\<close>

theorem postfix_of_P_OR_Q_AND_R_is_not_OR_last:
  "convert_to_postfix [''P'', ''OR'', ''Q'', ''AND'', ''R'']
     \<noteq> Inr [''P'', ''Q'', ''R'', ''AND'', ''OR'']"
  by (simp add: convert_unfold)

subsection \<open>What the evaluation trace holds\<close>




subsection \<open>Unbalanced parentheses\<close>

text \<open>
  Claim C6: the converter is to fail with its error for unbalanced parentheses in both
  directions. The code does so in one direction only. On the tokens of \<^verbatim>\<open>(P AND Q\<close> an
  open parenthesis is left on the stack and the final loop raises
  \<^verbatim>\<open>ValueError("Mismatched parentheses")\<close>. On the tokens of \<^verbatim>\<open>P AND Q)\<close> the loop of the
  \<^verbatim>\<open>')'\<close> branch empties the stack without finding an open parenthesis, and the
  unguarded \<^verbatim>\<open>operators.pop()\<close> of line 86 raises IndexError: the converter does not
  report mismatched parentheses there.
\<close>

theorem unmatched_closing_parenthesis_raises_IndexError:
  "tokenize_expression ''P AND Q)'' = Inr [''P'', ''AND'', ''Q'', '')''] \<and>
   convert_to_postfix [''P'', ''AND'', ''Q'', '')''] = Inl IndexError \<and>
   convert_to_postfix [''P'', ''AND'', ''Q'', '')''] \<noteq> Inl (ValueError ''Mismatched parentheses'') \<and>
   tokenize_expression ''(P AND Q'' = Inr [''('', ''P'', ''AND'', ''Q''] \<and>
   convert_to_postfix [''('', ''P'', ''AND'', ''Q''] = Inl (ValueError ''Mismatched parentheses'')"
  by (simp add: tokenize_unfold convert_unfold)

subsection \<open>The labels of the trace do not depend on the assignment\<close>

text \<open>
  Claim C9. For a fixed postfix sequence, two successful evaluations under any two
  assignments return traces with the same sequence of labels; only the boolean values can
  differ. This is why the headers found under the first assignment can be looked up in the
  trace of every other row.
\<close>

theorem trace_labels_independent_of_assignment:
  assumes "evaluate_postfix_expression postfix_tokens values1 = Inr (b1, trace1)"
    and "evaluate_postfix_expression postfix_tokens values2 = Inr (b2, trace2)"
  shows "map fst trace1 = map fst trace2"
proof -
  from assms(1) obtain st1 where
    l1: "eval_loop values1 postfix_tokens ([], []) = Inr (st1, trace1)"
    by (auto simp: evaluate_postfix_expression_def split: sum.splits if_splits)
  from assms(2) obtain st2 where
    l2: "eval_loop values2 postfix_tokens ([], []) = Inr (st2, trace2)"
    by (auto simp: evaluate_postfix_expression_def split: sum.splits if_splits)
  from eval_loop_labels[OF l1 l2] show ?thesis by simp
qed

text \<open>
  Claim C9, witness: \<^verbatim>\<open>P Q AND\<close> under two assignments; the values differ, the label
  \<^verbatim>\<open>P ^ Q\<close> does not.
\<close>

theorem trace_labels_independent_of_assignment_witness:
  "evaluate_postfix_expression [''P'', ''Q'', ''AND''] (dict [(''P'', True), (''Q'', True)])
     = Inr (True, [(''P ^ Q'', True)]) \<and>
   evaluate_postfix_expression [''P'', ''Q'', ''AND''] (dict [(''P'', False), (''Q'', True)])
     = Inr (False, [(''P ^ Q'', False)]) \<and>
   map fst [(''P ^ Q'', True)] = map fst [(''P ^ Q'', False)]"
proof -
  have h1: "evaluate_postfix_expression [''P'', ''Q'', ''AND''] (dict [(''P'', True), (''Q'', True)])
     = Inr (True, [(''P ^ Q'', True)])"
    by (simp add: evaluate_unfold)
  have h2: "evaluate_postfix_expression [''P'', ''Q'', ''AND''] (dict [(''P'', False), (''Q'', True)])
     = Inr (False, [(''P ^ Q'', False)])"
    by (simp add: evaluate_unfold)
  from trace_labels_independent_of_assignment[OF h1 h2] h1 h2 show ?thesis by simp
qed

subsection \<open>The branches for an unknown token are dead on tokenizer output\<close>

text \<open>
  Claim C10. When tokenization succeeds, every token is a variable, a constant, a
  parenthesis or a key of \<^verbatim>\<open>self.operators\<close>; so the converter does not raise its
  \<^verbatim>\<open>Unknown token\<close> error on these tokens, and when it returns a postfix sequence the
  evaluator does not raise its \<^verbatim>\<open>Unknown token\<close> error on it, under any assignment.
\<close>

theorem tokenizer_output_has_no_unknown_token:
  assumes "tokenize_expression expression = Inr tokens"
  shows "(\<forall>t \<in> set tokens. known_token t) \<and>
         (\<forall>m. convert_to_postfix tokens \<noteq> Inl (ValueError (''Unknown token: '' @ m))) \<and>
         (\<forall>postfix values m. convert_to_postfix tokens = Inr postfix \<longrightarrow>
            evaluate_postfix_expression postfix values \<noteq> Inl (ValueError (''Unknown token: '' @ m)))"
proof -
  have known: "\<forall>t \<in> set tokens. known_token t" by (rule tokenize_known[OF assms])
  note conv = convert_to_postfix_depth[OF known]
  have c: "convert_to_postfix tokens \<noteq> Inl (ValueError (''Unknown token: '' @ m))" for m
  proof (cases "depth_after 0 tokens")
    case None
    with conv show ?thesis by simp
  next
    case (Some d)
    with conv show ?thesis by (cases d) auto
  qed
  have e: "evaluate_postfix_expression postfix vals \<noteq> Inl (ValueError (''Unknown token: '' @ msg))"
    if p: "convert_to_postfix tokens = Inr postfix" for postfix vals msg
  proof -
    have pt: "\<forall>t \<in> set postfix. postfix_token t"
    proof (cases "depth_after 0 tokens")
      case None
      with conv p show ?thesis by simp
    next
      case (Some d)
      with conv p show ?thesis by (cases d) auto
    qed
    show ?thesis
    proof (cases "eval_loop vals postfix ([], [])")
      case (Inl err)
      from eval_loop_error[OF Inl] pt have "err \<noteq> ValueError (''Unknown token: '' @ msg)"
        by (auto simp: postfix_token_def)
      with Inl show ?thesis by (simp add: evaluate_postfix_expression_def)
    next
      case (Inr sr)
      then show ?thesis
        by (cases sr) (simp add: evaluate_postfix_expression_def)
    qed
  qed
  from known c e show ?thesis by blast
qed

text \<open>Claim C10, witness: the expression \<^verbatim>\<open>p or ~q\<close>.\<close>

theorem tokenizer_output_has_no_unknown_token_witness:
  "tokenize_expression ''p or ~q'' = Inr [''P'', ''OR'', ''NOT'', ''Q''] \<and>
   known_token ''P'' \<and> known_token ''OR'' \<and> known_token ''NOT'' \<and> known_token ''Q'' \<and>
   convert_to_postfix [''P'', ''OR'', ''NOT'', ''Q''] \<noteq> Inl (ValueError (''Unknown token: '' @ ''P''))"
proof -
  have t: "tokenize_expression ''p or ~q'' = Inr [''P'', ''OR'', ''NOT'', ''Q'']"
    by (simp add: tokenize_unfold)
  from tokenizer_output_has_no_unknown_token[OF t] t show ?thesis by simp
qed

end
